theory Spec2Isabelle
  imports Main "HOL-Library.AList" "HOL-Library.Char_ord" "HOL-Library.List_Lexorder"
begin

section \<open>Python values and exceptions\<close>

text \<open>
  The exceptions the modelled code can raise. \<open>AttributeError\<close> and \<open>IndexError\<close> are the
  Python built-ins (\<^verbatim>\<open>x.get\<close> on a value that is not a dict, \<^verbatim>\<open>s[0]\<close> on an empty
  sequence). \<open>GoogkitError msg\<close> is \<^verbatim>\<open>GoogkitError(msg)\<close>. \<open>OtherError\<close> stands for any
  exception that is not a \<^verbatim>\<open>GoogkitError\<close>.

  Modelled from the spec: \<open>ConfigRequired\<close> is the error of section 7 that
  \<^verbatim>\<open>Command.run()\<close> raises (\<^verbatim>\<open>googkit/commands/command.py\<close> and
  \<^verbatim>\<open>googkit/lib/error.py\<close> are not among the source files); the test
  \<^verbatim>\<open>test_run_on_cmd_needs_config\<close> expects it to be a \<^verbatim>\<open>GoogkitError\<close>.
\<close>

datatype exn =
    AttributeError
  | IndexError
  | GoogkitError string
  | ConfigRequired
  | OtherError string

fun is_GoogkitError :: "exn \<Rightarrow> bool" where
  "is_GoogkitError (GoogkitError _) = True"
| "is_GoogkitError ConfigRequired = True"
| "is_GoogkitError _ = False"

section \<open>The command tree (\<^verbatim>\<open>lib/command_tree.py\<close>)\<close>

text \<open>
  A value stored in the tree is a list of command classes (a leaf) or a nested dict (a
  branch). A dict is an association list in insertion order, read with \<open>map_of\<close> and
  written with \<open>AList.update\<close>, which keeps the position of a key that is already there and
  appends a new one, as a Python dict does. The tree itself (\<^verbatim>\<open>self._tree\<close>) is a dict.
\<close>

datatype 'c node = Leaf "'c list" | Branch "(string \<times> 'c node) list"

type_synonym 'c tree = "(string \<times> 'c node) list"

subsection \<open>Statements, blocks and \<^verbatim>\<open>for\<close> loops\<close>

text \<open>
  \<^verbatim>\<open>command_classes\<close> has statements after an unconditional \<^verbatim>\<open>return\<close>. To keep them in
  the model, a statement is a function from the local variables to the way control leaves
  it: on to the next statement, \<^verbatim>\<open>continue\<close>, \<^verbatim>\<open>return\<close> with a value, or a raised
  exception.
\<close>

datatype ('s, 'r) flow = Next 's | Continue 's | Return 'r | Raise exn

fun block :: "('s \<Rightarrow> ('s, 'r) flow) list \<Rightarrow> 's \<Rightarrow> ('s, 'r) flow" where
  "block [] s = Next s"
| "block (stmt # stmts) s =
     (case stmt s of
        Next s' \<Rightarrow> block stmts s'
      | Continue s' \<Rightarrow> Continue s'
      | Return r \<Rightarrow> Return r
      | Raise e \<Rightarrow> Raise e)"

fun for_each :: "('a \<Rightarrow> 's \<Rightarrow> ('s, 'r) flow) \<Rightarrow> 'a list \<Rightarrow> 's \<Rightarrow> ('s, 'r) flow" where
  "for_each body [] s = Next s"
| "for_each body (x # xs) s =
     (case body x s of
        Next s' \<Rightarrow> for_each body xs s'
      | Continue s' \<Rightarrow> for_each body xs s'
      | Return r \<Rightarrow> Return r
      | Raise e \<Rightarrow> Raise e)"

subsection \<open>\<^verbatim>\<open>command_classes\<close>\<close>

text \<open>
  The local variables of \<^verbatim>\<open>command_classes\<close>. \<open>None\<close> is Python's \<^verbatim>\<open>None\<close>.
  \<^verbatim>\<open>last_value\<close> is only ever assigned a list.
\<close>

record 'c cc_vars =
  value_var :: "'c node option"
  last_value :: "'c list option"
  next_value :: "'c node option"

text \<open>\<^verbatim>\<open>value.get(arg)\<close>: a dict lookup; any other receiver has no \<^verbatim>\<open>get\<close>.\<close>

fun py_get :: "'c node option \<Rightarrow> string \<Rightarrow> exn + 'c node option" where
  "py_get (Some (Branch d)) arg = Inr (map_of d arg)"
| "py_get _ arg = Inl AttributeError"

definition cc_check_garbage :: "'c cc_vars \<Rightarrow> ('c cc_vars, 'c list option) flow" where
  "cc_check_garbage s = (if last_value s \<noteq> None then Return None else Next s)"

definition cc_get :: "string \<Rightarrow> 'c cc_vars \<Rightarrow> ('c cc_vars, 'c list option) flow" where
  "cc_get arg s =
     (case py_get (value_var s) arg of
        Inl e \<Rightarrow> Raise e
      | Inr v \<Rightarrow> Next (s\<lparr>next_value := v\<rparr>))"

definition cc_if_list :: "'c cc_vars \<Rightarrow> ('c cc_vars, 'c list option) flow" where
  "cc_if_list s =
     (case next_value s of
        Some (Leaf l) \<Rightarrow> Continue (s\<lparr>last_value := Some l\<rparr>)
      | _ \<Rightarrow> Next s)"

definition cc_if_dict :: "'c cc_vars \<Rightarrow> ('c cc_vars, 'c list option) flow" where
  "cc_if_dict s =
     (case next_value s of
        Some (Branch d) \<Rightarrow> Continue (s\<lparr>value_var := next_value s\<rparr>)
      | _ \<Rightarrow> Next s)"

definition cc_return_none :: "'c cc_vars \<Rightarrow> ('c cc_vars, 'c list option) flow" where
  "cc_return_none s = Return None"

definition cc_late_if_list :: "'c cc_vars \<Rightarrow> ('c cc_vars, 'c list option) flow" where
  "cc_late_if_list s =
     (case next_value s of
        Some (Leaf l) \<Rightarrow> Return (Some l)
      | _ \<Rightarrow> Next s)"

definition cc_late_assign :: "'c cc_vars \<Rightarrow> ('c cc_vars, 'c list option) flow" where
  "cc_late_assign s = Next (s\<lparr>value_var := next_value s\<rparr>)"

text \<open>The loop body, statement by statement (lines 75 to 94 of the source).\<close>

definition command_classes_body :: "string \<Rightarrow> 'c cc_vars \<Rightarrow> ('c cc_vars, 'c list option) flow" where
  "command_classes_body arg =
     block [cc_check_garbage, cc_get arg, cc_if_list, cc_if_dict, cc_return_none,
            cc_late_if_list, cc_late_assign]"

definition cc_init :: "'c tree \<Rightarrow> 'c cc_vars" where
  "cc_init tree = \<lparr>value_var = Some (Branch tree), last_value = None, next_value = None\<rparr>"

fun cc_result :: "('c cc_vars, 'c list option) flow \<Rightarrow> exn + 'c list option" where
  "cc_result (Next s) = Inr (last_value s)"
| "cc_result (Continue s) = Inr (last_value s)"
| "cc_result (Return r) = Inr r"
| "cc_result (Raise e) = Inl e"

text \<open>
  \<^verbatim>\<open>command_classes(args)\<close>: \<open>Inr None\<close> is the \<^verbatim>\<open>None\<close> the source returns when nothing is
  found, \<open>Inr (Some l)\<close> the list of classes of a leaf.
\<close>

definition command_classes :: "'c tree \<Rightarrow> string list \<Rightarrow> exn + 'c list option" where
  "command_classes tree args = cc_result (for_each command_classes_body args (cc_init tree))"

text \<open>The same function with the statements after the unconditional \<^verbatim>\<open>return None\<close> removed.\<close>

definition command_classes_body_live ::
    "string \<Rightarrow> 'c cc_vars \<Rightarrow> ('c cc_vars, 'c list option) flow" where
  "command_classes_body_live arg =
     block [cc_check_garbage, cc_get arg, cc_if_list, cc_if_dict, cc_return_none]"

definition command_classes_live :: "'c tree \<Rightarrow> string list \<Rightarrow> exn + 'c list option" where
  "command_classes_live tree args =
     cc_result (for_each command_classes_body_live args (cc_init tree))"

subsection \<open>\<^verbatim>\<open>right_commands\<close>\<close>

text \<open>The loop of \<^verbatim>\<open>right_commands\<close>, with its two variables; \<^verbatim>\<open>break\<close> ends the recursion.\<close>

fun right_commands_loop :: "'c tree \<Rightarrow> string list \<Rightarrow> string list \<Rightarrow> string list" where
  "right_commands_loop command_dict result [] = result"
| "right_commands_loop command_dict result (arg # args) =
     (case map_of command_dict arg of
        None \<Rightarrow> result
      | Some (Leaf l) \<Rightarrow> result @ [arg]
      | Some (Branch next_dict) \<Rightarrow> right_commands_loop next_dict (result @ [arg]) args)"

definition right_commands :: "'c tree \<Rightarrow> string list \<Rightarrow> string list" where
  "right_commands tree args = right_commands_loop tree [] args"

subsection \<open>\<^verbatim>\<open>is_internal_command\<close> and \<^verbatim>\<open>available_commands\<close>\<close>

text \<open>\<^verbatim>\<open>name[0] == '_'\<close>; indexing the empty string raises.\<close>

fun is_internal_command :: "string \<Rightarrow> exn + bool" where
  "is_internal_command [] = Inl IndexError"
| "is_internal_command (c # cs) = Inr (c = CHR ''_'')"

text \<open>The comprehension \<^verbatim>\<open>[cmd for cmd in commands if not is_internal_command(cmd)]\<close>.\<close>

fun non_internal :: "string list \<Rightarrow> exn + string list" where
  "non_internal [] = Inr []"
| "non_internal (cmd # cmds) =
     (case is_internal_command cmd of
        Inl e \<Rightarrow> Inl e
      | Inr internal \<Rightarrow>
          (case non_internal cmds of
             Inl e \<Rightarrow> Inl e
           | Inr rest \<Rightarrow> Inr (if internal then rest else cmd # rest)))"

text \<open>
  The loop of \<^verbatim>\<open>available_commands\<close> and the code after it. \<^verbatim>\<open>command_dict\<close> is assigned
  whatever \<^verbatim>\<open>get\<close> returned, so it can be a list when the next \<^verbatim>\<open>get\<close> is called on it.
\<close>

fun available_commands_loop :: "'c node \<Rightarrow> string list \<Rightarrow> exn + string list" where
  "available_commands_loop (Leaf l) [] = Inr []"
| "available_commands_loop (Branch d) [] =
     (case non_internal (map fst d) of
        Inl e \<Rightarrow> Inl e
      | Inr cmds \<Rightarrow> Inr (sort cmds))"
| "available_commands_loop (Leaf l) (arg # args) = Inl AttributeError"
| "available_commands_loop (Branch d) (arg # args) =
     (case map_of d arg of
        None \<Rightarrow> Inr []
      | Some next_dict \<Rightarrow> available_commands_loop next_dict args)"

definition available_commands :: "'c tree \<Rightarrow> string list \<Rightarrow> exn + string list" where
  "available_commands tree args = available_commands_loop (Branch tree) args"

subsection \<open>\<^verbatim>\<open>register\<close>\<close>

text \<open>
  \<^verbatim>\<open>register(names, commands)\<close> returns the updated tree. Every name but the last is bound
  to a new empty dict, into which the walk descends, so what follows is registered in an
  empty dict; \<^verbatim>\<open>names[-1]\<close> raises on the empty list, before anything is written.
\<close>

fun register :: "'c tree \<Rightarrow> string list \<Rightarrow> 'c list \<Rightarrow> exn + 'c tree" where
  "register command_dict [] commands = Inl IndexError"
| "register command_dict [name] commands =
     Inr (AList.update name (Leaf commands) command_dict)"
| "register command_dict (name # names) commands =
     (case register [] names commands of
        Inl e \<Rightarrow> Inl e
      | Inr sub \<Rightarrow> Inr (AList.update name (Branch sub) command_dict))"

subsection \<open>\<^verbatim>\<open>DEFAULT_TREE\<close>\<close>

text \<open>
  A command class is named; a subclass of \<^verbatim>\<open>SequenceCommand\<close> also carries the classes its
  \<^verbatim>\<open>_internal_commands()\<close> returns (\<^verbatim>\<open>commands/setup.py\<close>).
\<close>

datatype cmd_class = Plain string | Sequence string "cmd_class list"

definition CommandsCommand :: cmd_class where "CommandsCommand = Plain ''CommandsCommand''"
definition BuildCommand :: cmd_class where "BuildCommand = Plain ''BuildCommand''"
definition ApplyConfigCommand :: cmd_class where "ApplyConfigCommand = Plain ''ApplyConfigCommand''"
definition UpdateDepsCommand :: cmd_class where "UpdateDepsCommand = Plain ''UpdateDepsCommand''"
definition InitCommand :: cmd_class where "InitCommand = Plain ''InitCommand''"
definition DownloadCommand :: cmd_class where "DownloadCommand = Plain ''DownloadCommand''"

definition SetupCommand :: cmd_class where
  "SetupCommand =
     Sequence ''SetupCommand'' [DownloadCommand, UpdateDepsCommand, ApplyConfigCommand]"

definition DEFAULT_TREE :: "cmd_class tree" where
  "DEFAULT_TREE =
     [(''_commands'', Leaf [CommandsCommand]),
      (''build'', Leaf [BuildCommand]),
      (''config'', Branch [(''apply'', Leaf [ApplyConfigCommand, UpdateDepsCommand])]),
      (''deps'', Branch [(''update'', Leaf [UpdateDepsCommand])]),
      (''init'', Leaf [InitCommand]),
      (''ready'', Leaf [ApplyConfigCommand, UpdateDepsCommand]),
      (''setup'', Leaf [SetupCommand, UpdateDepsCommand])]"

subsection \<open>Paths of the tree\<close>

text \<open>
  \<open>node_at n path\<close> is the node found by following \<open>path\<close> from \<open>n\<close> through branches,
  one key per token. A path \<open>P\<close> is registered with leaf \<open>L\<close> in \<open>tree\<close> when
  \<open>node_at (Branch tree) P = Some (Leaf L)\<close>.
\<close>

fun node_at :: "'c node \<Rightarrow> string list \<Rightarrow> 'c node option" where
  "node_at n [] = Some n"
| "node_at (Leaf l) (arg # args) = None"
| "node_at (Branch d) (arg # args) =
     (case map_of d arg of None \<Rightarrow> None | Some n \<Rightarrow> node_at n args)"

text \<open>The result of the walk of \<^verbatim>\<open>command_classes\<close> as a recursion on the tokens.\<close>

fun resolve :: "'c tree \<Rightarrow> string list \<Rightarrow> 'c list option" where
  "resolve d [] = None"
| "resolve d (arg # args) =
     (case map_of d arg of
        None \<Rightarrow> None
      | Some (Leaf l) \<Rightarrow> (if args = [] then Some l else None)
      | Some (Branch d') \<Rightarrow> resolve d' args)"

section \<open>Running commands\<close>

subsection \<open>The observable world\<close>

text \<open>
  What a run does is recorded as a list of events, oldest first. An \<^verbatim>\<open>Environment\<close> object
  is identified by the number it is given when it is constructed, so that two environments
  with equal fields are still told apart.
\<close>

datatype event =
    Print string
  | LogError string
  | Chdir string
  | FindConfig string
  | NewEnvironment nat
  | NewCommand cmd_class nat
  | RunInternal cmd_class nat

text \<open>
  \<open>events\<close> is the record of what happened, \<open>next_id\<close> the identity of the next object, and
  \<open>ext\<close> everything outside the engine that commands work on (the file system, child
  processes).
\<close>

record 'x world =
  events :: "event list"
  next_id :: nat
  ext :: 'x

definition emit :: "event \<Rightarrow> 'x world \<Rightarrow> 'x world" where
  "emit ev w = w\<lparr>events := events w @ [ev]\<rparr>"

text \<open>The parsed command line: \<^verbatim>\<open>parser.commands\<close> and the truth of \<^verbatim>\<open>parser.option('--version')\<close>.\<close>

record argument_parser =
  parser_commands :: "string list"
  parser_version :: bool

text \<open>\<^verbatim>\<open>Environment(cwd, parser, tree, config)\<close>; \<open>env_config = None\<close> is \<^verbatim>\<open>config is None\<close>.\<close>

record 'cfg environment =
  env_id :: nat
  env_cwd :: string
  env_argument :: argument_parser
  env_tree :: "cmd_class tree"
  env_config :: "'cfg option"

definition new_Environment ::
    "string \<Rightarrow> argument_parser \<Rightarrow> cmd_class tree \<Rightarrow> 'cfg option \<Rightarrow> 'x world \<Rightarrow>
     'cfg environment \<times> 'x world" where
  "new_Environment cwd parser tree config w =
     (\<lparr>env_id = next_id w, env_cwd = cwd, env_argument = parser, env_tree = tree,
       env_config = config\<rparr>,
      emit (NewEnvironment (next_id w)) (w\<lparr>next_id := Suc (next_id w)\<rparr>))"

text \<open>
  Code that is not among the source files is a parameter: what each class answers to
  \<^verbatim>\<open>needs_config()\<close>, the \<^verbatim>\<open>run_internal\<close> of each concrete command (by class name), the
  functions of \<^verbatim>\<open>googkit.lib.path\<close>, \<^verbatim>\<open>Config.load\<close>, \<^verbatim>\<open>os.chdir\<close>, \<^verbatim>\<open>str\<close> of an
  exception and \<^verbatim>\<open>googkit.lib.plugin.load\<close>.
\<close>

record ('cfg, 'x) collaborators =
  needs_config :: "cmd_class \<Rightarrow> bool"
  run_body :: "string \<Rightarrow> 'cfg environment \<Rightarrow> 'x \<Rightarrow> exn option \<times> 'x"
  project_root :: "string \<Rightarrow> 'x \<Rightarrow> exn + string"
  default_config :: "'x \<Rightarrow> exn + string"
  user_config :: "'x \<Rightarrow> exn + string"
  project_config :: "string \<Rightarrow> 'x \<Rightarrow> exn + string"
  config_load :: "string \<Rightarrow> string \<Rightarrow> string \<Rightarrow> 'x \<Rightarrow> exn + 'cfg"
  chdir :: "string \<Rightarrow> 'x \<Rightarrow> exn + 'x"
  str_of :: "exn \<Rightarrow> string"
  plugin_load :: "cmd_class tree \<Rightarrow> cmd_class tree"

subsection \<open>\<^verbatim>\<open>Command.run\<close> and \<^verbatim>\<open>SequenceCommand.run_internal\<close>\<close>

text \<open>
  Modelled from the spec: \<^verbatim>\<open>Command.run()\<close> (\<^verbatim>\<open>googkit/commands/command.py\<close>) and
  \<^verbatim>\<open>SequenceCommand.run_internal()\<close> (\<^verbatim>\<open>googkit/commands/sequence.py\<close>) are missing from
  the sources. Section 4.3: \<^verbatim>\<open>run()\<close> fails with ConfigRequired if \<^verbatim>\<open>needs_config()\<close> is
  true and the environment's config is absent, and otherwise delegates to
  \<^verbatim>\<open>run_internal()\<close>. Section 4.4: \<^verbatim>\<open>run_internal()\<close> of a sequence command iterates the
  classes of \<^verbatim>\<open>_internal_commands()\<close>, constructs each with the environment of the sequence
  command itself and calls \<^verbatim>\<open>run()\<close> on it; a raised exception is not caught.

  A result \<open>(None, w)\<close> is a normal return in world \<open>w\<close>, \<open>(Some e, w)\<close> the exception \<open>e\<close>
  raised in world \<open>w\<close>.
\<close>

fun run :: "('cfg, 'x) collaborators \<Rightarrow> cmd_class \<Rightarrow> 'cfg environment \<Rightarrow> 'x world \<Rightarrow>
      exn option \<times> 'x world"
and run_internal :: "('cfg, 'x) collaborators \<Rightarrow> cmd_class \<Rightarrow> 'cfg environment \<Rightarrow> 'x world \<Rightarrow>
      exn option \<times> 'x world"
and run_members :: "('cfg, 'x) collaborators \<Rightarrow> cmd_class list \<Rightarrow> 'cfg environment \<Rightarrow>
      'x world \<Rightarrow> exn option \<times> 'x world"
where
  "run D cls env w =
     (if needs_config D cls \<and> env_config env = None then (Some ConfigRequired, w)
      else run_internal D cls env w)"
| "run_internal D (Plain name) env w =
     (let w1 = emit (RunInternal (Plain name) (env_id env)) w;
          (r, x) = run_body D name env (ext w1)
      in (r, w1\<lparr>ext := x\<rparr>))"
| "run_internal D (Sequence name members) env w =
     run_members D members env (emit (RunInternal (Sequence name members) (env_id env)) w)"
| "run_members D [] env w = (None, w)"
| "run_members D (member # members) env w =
     (case run D member env (emit (NewCommand member (env_id env)) w) of
        (Some e, w') \<Rightarrow> (Some e, w')
      | (None, w') \<Rightarrow> run_members D members env w')"

subsection \<open>The dispatcher (\<^verbatim>\<open>googkit/__init__.py\<close>)\<close>

text \<open>\<^verbatim>\<open>sep.join(xs)\<close>.\<close>

fun join :: "string \<Rightarrow> string list \<Rightarrow> string" where
  "join sep [] = []"
| "join sep [x] = x"
| "join sep (x # xs) = x @ sep @ join sep xs"

fun print_names :: "string list \<Rightarrow> 'x world \<Rightarrow> 'x world" where
  "print_names [] w = w"
| "print_names (name # names) w = print_names names (emit (Print (''    '' @ name)) w)"

text \<open>\<^verbatim>\<open>print_help(tree, commands)\<close>; an exception of \<^verbatim>\<open>available_commands\<close> leaves it.\<close>

definition print_help :: "'c tree \<Rightarrow> string list \<Rightarrow> 'x world \<Rightarrow> exn option \<times> 'x world" where
  "print_help tree cmds w =
     (let right = right_commands tree cmds;
          w1 = (if length right = 0 then emit (Print ''Usage: googkit <command>'') w
                else emit (Print (''Usage: googkit '' @ join '' '' right @ '' <command>'')) w);
          w2 = emit (Print []) w1;
          w3 = emit (Print ''Available commands:'') w2
      in case available_commands tree right of
           Inl e \<Rightarrow> (Some e, w3)
         | Inr names \<Rightarrow> (None, print_names names w3))"

definition VERSION :: string where "VERSION = ''0.0.0''"

definition print_version :: "'x world \<Rightarrow> 'x world" where
  "print_version w = emit (Print (''googkit '' @ VERSION)) w"

text \<open>\<^verbatim>\<open>find_config(cwd)\<close>: the three paths, then \<^verbatim>\<open>Config().load(project, user, default)\<close>.\<close>

definition find_config :: "('cfg, 'x) collaborators \<Rightarrow> string \<Rightarrow> 'x \<Rightarrow> exn + 'cfg" where
  "find_config D cwd x =
     (case default_config D x of
        Inl e \<Rightarrow> Inl e
      | Inr dc \<Rightarrow>
          (case user_config D x of
             Inl e \<Rightarrow> Inl e
           | Inr uc \<Rightarrow>
               (case project_config D cwd x of
                  Inl e \<Rightarrow> Inl e
                | Inr pc \<Rightarrow> config_load D pc uc dc x)))"

text \<open>
  Lines 65 to 67 of \<^verbatim>\<open>main\<close>: the config is loaded when there is none yet and the class
  needs one. The result is the value of \<^verbatim>\<open>config\<close> afterwards, or the exception raised.
\<close>

definition load_if_needed ::
    "('cfg, 'x) collaborators \<Rightarrow> string \<Rightarrow> cmd_class \<Rightarrow> 'cfg option \<Rightarrow> 'x world \<Rightarrow>
     (exn + 'cfg option) \<times> 'x world" where
  "load_if_needed D cwd cls config w =
     (if config = None \<and> needs_config D cls then
        (case project_root D cwd (ext w) of
           Inl e \<Rightarrow> (Inl e, w)
         | Inr root \<Rightarrow>
             (case chdir D root (ext w) of
                Inl e \<Rightarrow> (Inl e, w)
              | Inr x \<Rightarrow>
                  (let w1 = emit (Chdir root) (w\<lparr>ext := x\<rparr>);
                       w2 = emit (FindConfig cwd) w1
                   in case find_config D cwd (ext w2) of
                        Inl e \<Rightarrow> (Inl e, w2)
                      | Inr c \<Rightarrow> (Inr (Some c), w2))))
      else (Inr config, w))"

text \<open>
  The loop of \<^verbatim>\<open>main\<close> (lines 64 to 73) over the resolved classes, with the variable
  \<^verbatim>\<open>config\<close>. The result holds the exception that left the loop, if any, the last value of
  \<^verbatim>\<open>config\<close> and the world.
\<close>

fun run_classes ::
    "('cfg, 'x) collaborators \<Rightarrow> string \<Rightarrow> argument_parser \<Rightarrow> cmd_class tree \<Rightarrow>
     cmd_class list \<Rightarrow> 'cfg option \<Rightarrow> 'x world \<Rightarrow> exn option \<times> 'cfg option \<times> 'x world" where
  "run_classes D cwd parser tree [] config w = (None, config, w)"
| "run_classes D cwd parser tree (cls # classes) config w =
     (case load_if_needed D cwd cls config w of
        (Inl e, w1) \<Rightarrow> (Some e, config, w1)
      | (Inr config1, w1) \<Rightarrow>
          (case new_Environment cwd parser tree config1 w1 of
             (env, w2) \<Rightarrow>
               (case run D cls env (emit (NewCommand cls (env_id env)) w2) of
                  (Some e, w3) \<Rightarrow> (Some e, config1, w3)
                | (None, w3) \<Rightarrow> run_classes D cwd parser tree classes config1 w3)))"

text \<open>
  How the process ends: \<^verbatim>\<open>main\<close> returns, \<^verbatim>\<open>sys.exit\<close> is called (\<^verbatim>\<open>sys.exit()\<close> is status
  0), or an exception leaves \<^verbatim>\<open>main\<close>.
\<close>

datatype outcome = Returned | Exit nat | Uncaught exn

definition main ::
    "('cfg, 'x) collaborators \<Rightarrow> string \<Rightarrow> argument_parser \<Rightarrow> 'x world \<Rightarrow> outcome \<times> 'x world" where
  "main D cwd parser w =
     (let tree = plugin_load D DEFAULT_TREE;
          cmds = parser_commands parser
      in if length cmds = 0 \<and> parser_version parser then (Exit 0, print_version w)
         else
           (case command_classes tree cmds of
              Inl e \<Rightarrow> (Uncaught e, w)
            | Inr None \<Rightarrow>
                (case print_help tree cmds w of
                   (Some e, w1) \<Rightarrow> (Uncaught e, w1)
                 | (None, w1) \<Rightarrow> (Exit 0, w1))
            | Inr (Some classes) \<Rightarrow>
                (case run_classes D cwd parser tree classes None w of
                   (None, config, w1) \<Rightarrow> (Returned, w1)
                 | (Some e, config, w1) \<Rightarrow>
                     (if is_GoogkitError e
                      then (Exit 1, emit (LogError (''[Error] '' @ str_of D e)) w1)
                      else (Uncaught e, w1)))))"

section \<open>\<^verbatim>\<open>InitCommand\<close> (\<^verbatim>\<open>googkit/commands/init.py\<close>)\<close>

text \<open>
  What \<^verbatim>\<open>copy_template\<close> calls: \<^verbatim>\<open>googkit.lib.path.template()\<close>, \<^verbatim>\<open>os.listdir\<close>, the order in
  which a Python set is iterated (by \<^verbatim>\<open>join\<close>), and \<^verbatim>\<open>distutils.dir_util.copy_tree\<close>, which
  changes the file system \<open>'x\<close> and may raise.
\<close>

record 'x init_collaborators =
  template :: string
  listdir :: "string \<Rightarrow> 'x \<Rightarrow> exn + string list"
  set_iter :: "string set \<Rightarrow> string list"
  copy_tree :: "string \<Rightarrow> string \<Rightarrow> 'x \<Rightarrow> exn option \<times> 'x"

definition copy_template :: "'x init_collaborators \<Rightarrow> string \<Rightarrow> 'x \<Rightarrow> exn option \<times> 'x" where
  "copy_template F dst_dir x =
     (let template_dir = template F
      in case listdir F dst_dir x of
           Inl e \<Rightarrow> (Some e, x)
         | Inr dst_entries \<Rightarrow>
             (case listdir F template_dir x of
                Inl e \<Rightarrow> (Some e, x)
              | Inr template_entries \<Rightarrow>
                  (let conflicted = set dst_entries \<inter> set template_entries
                   in if conflicted \<noteq> {}
                      then (Some (GoogkitError
                              (''Conflicted files: '' @ join '', '' (set_iter F conflicted))), x)
                      else copy_tree F template_dir dst_dir x)))"

section \<open>Notions used in the properties\<close>

subsection \<open>Paths and help output\<close>

text \<open>
  The names \<^verbatim>\<open>available_commands\<close> lists at a node: none at a leaf, the sorted keys that do
  not start with an underscore at a branch.
\<close>

fun visible_children :: "'c node \<Rightarrow> string list" where
  "visible_children (Leaf l) = []"
| "visible_children (Branch d) = sort (filter (\<lambda>name. hd name \<noteq> CHR ''_'') (map fst d))"

text \<open>The branch at the end of a path, if there is one, has no empty key.\<close>

definition keys_nonempty_at :: "'c tree \<Rightarrow> string list \<Rightarrow> bool" where
  "keys_nonempty_at tree path =
     (case node_at (Branch tree) path of
        Some (Branch d) \<Rightarrow> [] \<notin> set (map fst d)
      | _ \<Rightarrow> True)"

text \<open>The first line \<^verbatim>\<open>print_help\<close> prints for the resolved prefix \<open>right\<close>.\<close>

definition usage_line :: "string list \<Rightarrow> string" where
  "usage_line right =
     (if right = [] then ''Usage: googkit <command>''
      else ''Usage: googkit '' @ join '' '' right @ '' <command>'')"

subsection \<open>Reading a trace\<close>

text \<open>The environment a command event refers to.\<close>

fun event_env :: "event \<Rightarrow> nat option" where
  "event_env (NewCommand c i) = Some i"
| "event_env (RunInternal c i) = Some i"
| "event_env _ = None"

text \<open>The identities of the environments constructed, in order.\<close>

fun created_envs :: "event list \<Rightarrow> nat list" where
  "created_envs [] = []"
| "created_envs (NewEnvironment i # evs) = i # created_envs evs"
| "created_envs (ev # evs) = created_envs evs"

text \<open>The environment each constructed command was given, in order.\<close>

fun command_envs :: "event list \<Rightarrow> nat list" where
  "command_envs [] = []"
| "command_envs (NewCommand c i # evs) = i # command_envs evs"
| "command_envs (ev # evs) = command_envs evs"

text \<open>How often \<^verbatim>\<open>find_config\<close> was called.\<close>

fun config_loads :: "event list \<Rightarrow> nat" where
  "config_loads [] = 0"
| "config_loads (FindConfig cwd # evs) = Suc (config_loads evs)"
| "config_loads (ev # evs) = config_loads evs"

text \<open>
  One environment for the whole run: exactly one is constructed, before any command is,
  and every command is given it.
\<close>

definition one_shared_environment :: "event list \<Rightarrow> bool" where
  "one_shared_environment evs =
     (length (created_envs evs) = 1 \<and>
      command_envs (takeWhile (\<lambda>ev. ev \<noteq> NewEnvironment (hd (created_envs evs))) evs) = [] \<and>
      list_all (\<lambda>i. i = hd (created_envs evs)) (command_envs evs))"

text \<open>
  One environment for each class: an environment is followed at once by the construction
  of a command with it, and every command constructed or run holds the environment that was
  constructed last (\<open>cur\<close>, if any).
\<close>

fun well_scoped :: "nat option \<Rightarrow> event list \<Rightarrow> bool" where
  "well_scoped cur [] = True"
| "well_scoped cur (NewEnvironment i # evs) =
     ((case evs of NewCommand c j # rest \<Rightarrow> j = i | _ \<Rightarrow> False) \<and> well_scoped (Some i) evs)"
| "well_scoped cur (NewCommand c i # evs) = (cur = Some i \<and> well_scoped cur evs)"
| "well_scoped cur (RunInternal c i # evs) = (cur = Some i \<and> well_scoped cur evs)"
| "well_scoped cur (ev # evs) = well_scoped cur evs"

section \<open>A concrete instance\<close>

text \<open>
  Collaborators to run the model on: the file system is the list of the command bodies
  that have run, a body raises \<^verbatim>\<open>GoogkitError\<close> with its own name when the name is in
  \<open>failing\<close>, a class needs a config when its name is in \<open>needing\<close>, every path function
  succeeds, and no plugin registers anything.
\<close>

fun class_name :: "cmd_class \<Rightarrow> string" where
  "class_name (Plain name) = name"
| "class_name (Sequence name members) = name"

fun stub_str :: "exn \<Rightarrow> string" where
  "stub_str (GoogkitError msg) = msg"
| "stub_str ConfigRequired = ''No config file found.''"
| "stub_str e = ''error''"

definition stub :: "string list \<Rightarrow> string list \<Rightarrow> (unit, string list) collaborators" where
  "stub failing needing =
     \<lparr>needs_config = (\<lambda>cls. class_name cls \<in> set needing),
      run_body = (\<lambda>name env x.
        (if name \<in> set failing then Some (GoogkitError name) else None, x @ [name])),
      project_root = (\<lambda>cwd x. Inr cwd),
      default_config = (\<lambda>x. Inr ''default.cfg''),
      user_config = (\<lambda>x. Inr ''user.cfg''),
      project_config = (\<lambda>cwd x. Inr (cwd @ ''/googkit.cfg'')),
      config_load = (\<lambda>pc uc dc x. Inr ()),
      chdir = (\<lambda>path x. Inr x),
      str_of = stub_str,
      plugin_load = (\<lambda>tree. tree)\<rparr>"

definition start :: "string list world" where
  "start = \<lparr>events = [], next_id = 0, ext = []\<rparr>"

definition command_line :: "string list \<Rightarrow> argument_parser" where
  "command_line cmds = \<lparr>parser_commands = cmds, parser_version = False\<rparr>"

definition demo_env :: "unit option \<Rightarrow> unit environment" where
  "demo_env config =
     \<lparr>env_id = 7, env_cwd = ''/proj'', env_argument = command_line [''build''],
      env_tree = DEFAULT_TREE, env_config = config\<rparr>"

text \<open>
  A file system for \<^verbatim>\<open>copy_template\<close> to run on: a directory is the list of its entry
  names, \<^verbatim>\<open>copy_tree\<close> adds the entries of the source to the destination, and a set is
  iterated in sorted order.
\<close>

definition stub_fs :: "(string \<times> string list) list init_collaborators" where
  "stub_fs =
     \<lparr>template = ''/template'',
      listdir = (\<lambda>dir fs. case map_of fs dir of
                   None \<Rightarrow> Inl (OtherError ''OSError'')
                 | Some entries \<Rightarrow> Inr entries),
      set_iter = sorted_list_of_set,
      copy_tree = (\<lambda>src dst fs.
        (None, AList.update dst (the (map_of fs dst) @ the (map_of fs src)) fs))\<rparr>"

definition project_fs :: "string list \<Rightarrow> (string \<times> string list) list" where
  "project_fs entries =
     [(''/template'', [''closure'', ''googkit.cfg'', ''index.html'']), (''/proj'', entries)]"

section \<open>Properties of the command tree\<close>

subsection \<open>Statements after a \<^verbatim>\<open>return\<close>\<close>

lemma block_dead:
  assumes "\<And>s. \<forall>s'. stmt s \<noteq> Next s'"
  shows "block (pre @ stmt # post) s = block (pre @ [stmt]) s"
proof (induction pre arbitrary: s)
  case Nil
  from assms[of s] show ?case by (cases "stmt s") auto
next
  case (Cons p pre)
  then show ?case by (cases "p s") auto
qed

lemma body_live: "command_classes_body arg s = command_classes_body_live arg s"
  using block_dead[of cc_return_none "[cc_check_garbage, cc_get arg, cc_if_list, cc_if_dict]"
      "[cc_late_if_list, cc_late_assign]" s]
  by (simp add: command_classes_body_def command_classes_body_live_def cc_return_none_def)

lemma for_each_cong: "(\<And>x s. f x s = g x s) \<Longrightarrow> for_each f xs s = for_each g xs s"
  by (induction xs arbitrary: s) (simp_all split: flow.splits)

subsection \<open>The walk of \<^verbatim>\<open>command_classes\<close>\<close>

lemma body_found:
  "last_value s \<noteq> None \<Longrightarrow> command_classes_body_live arg s = Return None"
  by (simp add: command_classes_body_live_def cc_check_garbage_def)

lemma body_step:
  "last_value s = None \<Longrightarrow> value_var s = Some (Branch d) \<Longrightarrow>
   command_classes_body_live arg s =
     (case map_of d arg of
        None \<Rightarrow> Return None
      | Some (Leaf l) \<Rightarrow> Continue (s\<lparr>next_value := Some (Leaf l), last_value := Some l\<rparr>)
      | Some (Branch d') \<Rightarrow>
          Continue (s\<lparr>next_value := Some (Branch d'), value_var := Some (Branch d')\<rparr>))"
  by (simp add: command_classes_body_live_def cc_check_garbage_def cc_get_def cc_if_list_def
      cc_if_dict_def cc_return_none_def split: option.splits node.splits)

lemma loop_found:
  "last_value s = Some l \<Longrightarrow>
   cc_result (for_each command_classes_body_live args s) =
     Inr (if args = [] then Some l else None)"
  by (cases args) (simp_all add: body_found)

lemma loop_walk:
  "last_value s = None \<Longrightarrow> value_var s = Some (Branch d) \<Longrightarrow>
   cc_result (for_each command_classes_body_live args s) = Inr (resolve d args)"
proof (induction args arbitrary: s d)
  case Nil
  then show ?case by simp
next
  case (Cons arg args)
  show ?case
  proof (cases "map_of d arg")
    case None
    with Cons.prems show ?thesis by (simp add: body_step)
  next
    case (Some n)
    show ?thesis
    proof (cases n)
      case (Leaf l)
      with Some Cons.prems show ?thesis by (simp add: body_step loop_found)
    next
      case (Branch d')
      with Some Cons.prems
        Cons.IH[of "s\<lparr>next_value := Some (Branch d'), value_var := Some (Branch d')\<rparr>" d']
      show ?thesis by (simp add: body_step)
    qed
  qed
qed

lemma command_classes_live_resolve: "command_classes_live tree args = Inr (resolve tree args)"
  by (simp add: command_classes_live_def cc_init_def loop_walk)

lemma command_classes_resolve: "command_classes tree args = Inr (resolve tree args)"
  using for_each_cong[of command_classes_body command_classes_body_live args "cc_init tree"]
  by (simp add: command_classes_def body_live
      command_classes_live_resolve[unfolded command_classes_live_def])

lemma resolve_node_at:
  "resolve d args = (case node_at (Branch d) args of Some (Leaf l) \<Rightarrow> Some l | _ \<Rightarrow> None)"
proof (induction d args rule: resolve.induct)
  case (1 d)
  then show ?case by simp
next
  case (2 d arg args)
  then show ?case by (cases args) (auto split: option.splits node.splits)
qed

lemma node_at_append:
  "node_at n (xs @ ys) = (case node_at n xs of None \<Rightarrow> None | Some m \<Rightarrow> node_at m ys)"
  by (induction n xs rule: node_at.induct) (auto split: option.splits)

text \<open>
  C1. A path \<open>P\<close> registered with leaf \<open>L\<close> resolves to exactly \<open>L\<close>; \<open>P\<close> followed by
  any extra token is not found; and a token sequence none of whose prefixes reaches a leaf
  (the tokens run out in a branch, the empty sequence included, or a token is unknown) is
  not found. \<open>Inr None\<close> is NOT_FOUND, and no exception is raised in any of these cases.
\<close>

theorem command_classes_registered_path:
  "(node_at (Branch tree) P = Some (Leaf L) \<longrightarrow>
      command_classes tree P = Inr (Some L) \<and>
      (\<forall>extra. command_classes tree (P @ [extra]) = Inr None)) \<and>
   ((\<forall>k\<le>length args. \<forall>l. node_at (Branch tree) (take k args) \<noteq> Some (Leaf l)) \<longrightarrow>
      command_classes tree args = Inr None)"
proof (intro conjI impI allI)
  assume "node_at (Branch tree) P = Some (Leaf L)"
  then show "command_classes tree P = Inr (Some L)"
    by (simp add: command_classes_resolve resolve_node_at)
next
  fix extra
  assume "node_at (Branch tree) P = Some (Leaf L)"
  then show "command_classes tree (P @ [extra]) = Inr None"
    by (simp add: command_classes_resolve resolve_node_at node_at_append)
next
  assume "\<forall>k\<le>length args. \<forall>l. node_at (Branch tree) (take k args) \<noteq> Some (Leaf l)"
  then have "\<forall>l. node_at (Branch tree) args \<noteq> Some (Leaf l)"
    by auto
  then show "command_classes tree args = Inr None"
    by (simp add: command_classes_resolve resolve_node_at split: option.splits node.splits)
qed

theorem command_classes_registered_path_witness:
  "node_at (Branch DEFAULT_TREE) [''config'', ''apply''] =
     Some (Leaf [ApplyConfigCommand, UpdateDepsCommand]) \<and>
   command_classes DEFAULT_TREE [''config'', ''apply''] =
     Inr (Some [ApplyConfigCommand, UpdateDepsCommand]) \<and>
   command_classes DEFAULT_TREE [''config'', ''apply'', ''now''] = Inr None \<and>
   command_classes DEFAULT_TREE [''config'', ''bogus''] = Inr None"
proof -
  have reg: "node_at (Branch DEFAULT_TREE) [''config'', ''apply''] =
     Some (Leaf [ApplyConfigCommand, UpdateDepsCommand])"
    by (simp add: DEFAULT_TREE_def)
  have miss: "\<forall>k\<le>length [''config'', ''bogus''].
      \<forall>l. node_at (Branch DEFAULT_TREE) (take k [''config'', ''bogus'']) \<noteq> Some (Leaf l)"
    by (auto simp add: DEFAULT_TREE_def le_Suc_eq)
  from reg miss
    command_classes_registered_path [of DEFAULT_TREE "[''config'', ''apply'']"
      "[ApplyConfigCommand, UpdateDepsCommand]" "[''config'', ''bogus'']"]
  show ?thesis by auto
qed

text \<open>
  C9. The statements after the unconditional \<^verbatim>\<open>return None\<close> of the loop body are never
  executed: for every tree and every token sequence \<^verbatim>\<open>command_classes\<close> computes what the
  same function without them computes.
\<close>

theorem command_classes_dead_code:
  "command_classes tree args = command_classes_live tree args"
  by (simp add: command_classes_def command_classes_live_def body_live
      for_each_cong[of command_classes_body command_classes_body_live])

subsection \<open>\<^verbatim>\<open>register\<close>\<close>

lemma register_singleton_dict:
  "register [] names commands = Inr sub \<Longrightarrow> \<exists>v. sub = [(hd names, v)]"
  by (cases "([] :: 'a tree, names, commands)" rule: register.cases)
     (auto split: sum.splits)

lemma register_total: "names \<noteq> [] \<Longrightarrow> \<exists>tree'. register tree names commands = Inr tree'"
  by (induction tree names commands rule: register.induct) (auto split: sum.splits)

lemma register_leaf:
  "register tree names commands = Inr tree' \<Longrightarrow>
   node_at (Branch tree') names = Some (Leaf commands)"
  by (induction tree names commands arbitrary: tree' rule: register.induct)
     (auto split: sum.splits simp: update_conv')

lemma register_fresh:
  "register tree names commands = Inr tree' \<Longrightarrow> 0 < k \<Longrightarrow> k < length names \<Longrightarrow>
   \<exists>v. node_at (Branch tree') (take k names) = Some (Branch [(names ! k, v)])"
proof (induction tree names commands arbitrary: tree' k rule: register.induct)
  case (1 command_dict commands)
  then show ?case by simp
next
  case (2 command_dict name commands)
  then show ?case by simp
next
  case (3 command_dict name n ns commands)
  from "3.prems"(1) obtain sub where
    sub: "register [] (n # ns) commands = Inr sub" and
    t: "tree' = AList.update name (Branch sub) command_dict"
    by (auto split: sum.splits)
  from "3.prems"(2) obtain j where k: "k = Suc j" by (cases k) auto
  show ?case
  proof (cases j)
    case 0
    from register_singleton_dict[OF sub] obtain v where "sub = [(n, v)]" by auto
    with 0 k t show ?thesis by (simp add: update_conv')
  next
    case (Suc i)
    with k "3.prems"(3) have "0 < j" "j < length (n # ns)" by auto
    from "3.IH"[OF sub this] obtain v where
      "node_at (Branch sub) (take j (n # ns)) = Some (Branch [((n # ns) ! j, v)])" by auto
    with k t show ?thesis by (simp add: update_conv')
  qed
qed

lemma register_other_keys:
  "register tree names commands = Inr tree' \<Longrightarrow> key \<noteq> hd names \<Longrightarrow>
   map_of tree' key = map_of tree key"
  by (cases "(tree, names, commands)" rule: register.cases)
     (auto split: sum.splits simp: update_conv')



subsection \<open>\<^verbatim>\<open>available_commands\<close>\<close>

lemma non_internal_filter:
  "[] \<notin> set names \<Longrightarrow>
   non_internal names = Inr (filter (\<lambda>name. hd name \<noteq> CHR ''_'') names)"
proof (induction names)
  case Nil
  then show ?case by simp
next
  case (Cons name names)
  then show ?case by (cases name) auto
qed

text \<open>
  What \<^verbatim>\<open>available_commands\<close> returns, by where the tokens lead: to a leaf, to a branch
  (without an empty key), to an unknown token below a branch, or past a leaf.
\<close>

lemma available_commands_loop_append:
  "node_at n xs = Some m \<Longrightarrow>
   available_commands_loop n (xs @ ys) = available_commands_loop m ys"
  by (induction n xs rule: node_at.induct) (auto split: option.splits)

lemma available_commands_loop_cases:
  "node_at n args = Some (Leaf l) \<Longrightarrow> available_commands_loop n args = Inr []"
  "node_at n args = Some (Branch d) \<Longrightarrow> [] \<notin> set (map fst d) \<Longrightarrow>
     available_commands_loop n args = Inr (visible_children (Branch d))"
  "node_at n args = Some (Branch d) \<Longrightarrow> map_of d arg = None \<Longrightarrow>
     available_commands_loop n (args @ arg # rest) = Inr []"
  "node_at n args = Some (Leaf l) \<Longrightarrow>
     available_commands_loop n (args @ arg # rest) = Inl AttributeError"
  using available_commands_loop_append[of n args _ "[]"]
    available_commands_loop_append[of n args _ "arg # rest"]
  by (simp_all add: non_internal_filter)

text \<open>
  C5. The claim fails on the code where a token follows a leaf: \<^verbatim>\<open>command_dict\<close> is then a
  list, and \<^verbatim>\<open>command_dict.get(arg)\<close> raises \<^verbatim>\<open>AttributeError\<close> instead of the empty
  sequence being returned. Here \<^verbatim>\<open>build\<close> is a leaf of \<^verbatim>\<open>DEFAULT_TREE\<close>.
\<close>

theorem available_commands_token_after_leaf:
  "available_commands DEFAULT_TREE [''build'', ''x''] = Inl AttributeError"
  by (simp add: available_commands_def DEFAULT_TREE_def)

section \<open>Properties of running commands\<close>

lemma events_emit [simp]: "events (emit ev w) = events w @ [ev]"
  and next_id_emit [simp]: "next_id (emit ev w) = next_id w"
  and ext_emit [simp]: "ext (emit ev w) = ext w"
  by (simp_all add: emit_def)

text \<open>
  Running a command changes no object identity and only appends events, each of which
  refers to the environment the command holds; the \<^verbatim>\<open>run_internal\<close> events that follow the
  first are those of members, which are smaller classes.
\<close>

lemma run_frame:
  "run D cls env w = (r, w') \<Longrightarrow>
     next_id w' = next_id w \<and>
     (\<exists>evs. events w' = events w @ evs \<and>
        (\<forall>ev\<in>set evs. event_env ev = Some (env_id env)) \<and>
        (\<forall>c i. RunInternal c i \<in> set evs \<longrightarrow> size c \<le> size cls))"
  and run_internal_frame:
  "run_internal D cls env w = (r, w') \<Longrightarrow>
     next_id w' = next_id w \<and>
     (\<exists>evs. events w' = events w @ RunInternal cls (env_id env) # evs \<and>
        (\<forall>ev\<in>set evs. event_env ev = Some (env_id env)) \<and>
        (\<forall>c i. RunInternal c i \<in> set evs \<longrightarrow> size c < size cls))"
  and run_members_frame:
  "run_members D ms env w = (r, w') \<Longrightarrow>
     next_id w' = next_id w \<and>
     (\<exists>evs. events w' = events w @ evs \<and>
        (\<forall>ev\<in>set evs. event_env ev = Some (env_id env)) \<and>
        (\<forall>c i. RunInternal c i \<in> set evs \<longrightarrow> size c \<le> size_list size ms))"
proof (induction D cls env w and D cls env w and D ms env w arbitrary: r w' and r w' and r w'
    rule: run_run_internal_run_members.induct)
  case (1 D cls env w)
  show ?case
  proof (cases "needs_config D cls \<and> env_config env = None")
    case True
    with "1.prems" show ?thesis by auto
  next
    case False
    with "1.prems" have "run_internal D cls env w = (r, w')" by auto
    from "1.IH"[OF False this] show ?thesis by fastforce
  qed
next
  case (2 D name env w)
  then show ?case by (auto split: prod.splits)
next
  case (3 D name members env w)
  from "3.prems" have
    "run_members D members env (emit (RunInternal (Sequence name members) (env_id env)) w) = (r, w')"
    by simp
  from "3.IH"[OF this] show ?case by fastforce
next
  case (4 D env w)
  then show ?case by simp
next
  case (5 D member members env w)
  obtain r1 w1 where r1: "run D member env (emit (NewCommand member (env_id env)) w) = (r1, w1)"
    by (cases "run D member env (emit (NewCommand member (env_id env)) w)")
  from "5.IH"(1)[OF r1] obtain evs1 where
    n1: "next_id w1 = next_id w" and
    e1: "events w1 = events w @ NewCommand member (env_id env) # evs1" and
    a1: "\<forall>ev\<in>set evs1. event_env ev = Some (env_id env)" and
    s1: "\<forall>c i. RunInternal c i \<in> set evs1 \<longrightarrow> size c \<le> size member"
    by auto
  show ?case
  proof (cases r1)
    case (Some e)
    with r1 "5.prems" have "w' = w1" by simp
    with n1 e1 a1 s1 show ?thesis by fastforce
  next
    case None
    with r1 "5.prems" have rest: "run_members D members env w1 = (r, w')" by simp
    from "5.IH"(2)[OF r1[symmetric] _ rest] None obtain evs2 where
      n2: "next_id w' = next_id w1" and
      e2: "events w' = events w1 @ evs2" and
      a2: "\<forall>ev\<in>set evs2. event_env ev = Some (env_id env)" and
      s2: "\<forall>c i. RunInternal c i \<in> set evs2 \<longrightarrow> size c \<le> size_list size members"
      by auto
    from e1 e2 have "events w' = events w @ (NewCommand member (env_id env) # evs1 @ evs2)"
      by simp
    moreover from a1 a2 have
      "\<forall>ev\<in>set (NewCommand member (env_id env) # evs1 @ evs2). event_env ev = Some (env_id env)"
      by auto
    moreover from s1 s2 have
      "\<forall>c i. RunInternal c i \<in> set (NewCommand member (env_id env) # evs1 @ evs2) \<longrightarrow>
         size c \<le> size_list size (member # members)"
      by fastforce
    ultimately show ?thesis using n1 n2 by metis
  qed
qed

lemmas stub_eval = stub_def start_def command_line_def DEFAULT_TREE_def
  new_Environment_def emit_def load_if_needed_def find_config_def
  ApplyConfigCommand_def UpdateDepsCommand_def SetupCommand_def DownloadCommand_def
  BuildCommand_def InitCommand_def CommandsCommand_def

subsection \<open>\<^verbatim>\<open>Command.run\<close>\<close>

lemma run_internal_once:
  assumes "run_internal D cls env w = (r, w')"
  shows "count_list (events w') (RunInternal cls (env_id env)) =
         Suc (count_list (events w) (RunInternal cls (env_id env)))"
proof -
  from run_internal_frame[OF assms] obtain evs where
    e: "events w' = events w @ RunInternal cls (env_id env) # evs" and
    s: "\<forall>c i. RunInternal c i \<in> set evs \<longrightarrow> size c < size cls"
    by auto
  from s have "RunInternal cls (env_id env) \<notin> set evs" by auto
  then have "count_list evs (RunInternal cls (env_id env)) = 0"
    by (simp add: count_list_0_iff)
  with e show ?thesis by simp
qed

text \<open>
  C6. With \<^verbatim>\<open>needs_config()\<close> true and no config in the environment, \<^verbatim>\<open>run()\<close> raises
  ConfigRequired, a \<^verbatim>\<open>GoogkitError\<close>, in the world it was called in: nothing has been done.
  Otherwise \<^verbatim>\<open>run()\<close> is \<^verbatim>\<open>run_internal()\<close>, which is entered exactly once for this
  class and environment.
\<close>

theorem run_config_required:
  "(needs_config D cls \<and> env_config env = None \<longrightarrow>
      run D cls env w = (Some ConfigRequired, w) \<and> is_GoogkitError ConfigRequired) \<and>
   (\<not> needs_config D cls \<or> env_config env \<noteq> None \<longrightarrow>
      run D cls env w = run_internal D cls env w \<and>
      count_list (events (snd (run D cls env w))) (RunInternal cls (env_id env)) =
        Suc (count_list (events w) (RunInternal cls (env_id env))))"
proof (intro conjI impI)
  assume "\<not> needs_config D cls \<or> env_config env \<noteq> None"
  then show eq: "run D cls env w = run_internal D cls env w" by auto
  show "count_list (events (snd (run D cls env w))) (RunInternal cls (env_id env)) =
        Suc (count_list (events w) (RunInternal cls (env_id env)))"
    using run_internal_once[of D cls env w "fst (run_internal D cls env w)"
        "snd (run_internal D cls env w)"] eq
    by simp
qed simp_all

theorem run_config_required_witness:
  "needs_config (stub [] [''BuildCommand'']) BuildCommand \<and>
   env_config (demo_env None) = None \<and>
   run (stub [] [''BuildCommand'']) BuildCommand (demo_env None) start =
     (Some ConfigRequired, start) \<and>
   env_config (demo_env (Some ())) \<noteq> None \<and>
   run (stub [] [''BuildCommand'']) BuildCommand (demo_env (Some ())) start =
     (None, \<lparr>events = [RunInternal BuildCommand 7], next_id = 0, ext = [''BuildCommand'']\<rparr>) \<and>
   \<not> needs_config (stub [] [''BuildCommand'']) InitCommand \<and>
   run (stub [] [''BuildCommand'']) InitCommand (demo_env None) start =
     (None, \<lparr>events = [RunInternal InitCommand 7], next_id = 0, ext = [''InitCommand'']\<rparr>)"
proof -
  have a: "needs_config (stub [] [''BuildCommand'']) BuildCommand \<and>
      env_config (demo_env None) = None"
    by (simp add: stub_eval demo_env_def)
  have b: "\<not> needs_config (stub [] [''BuildCommand'']) BuildCommand \<or>
      env_config (demo_env (Some ())) \<noteq> None"
    by (simp add: demo_env_def)
  have c: "\<not> needs_config (stub [] [''BuildCommand'']) InitCommand \<or>
      env_config (demo_env None) \<noteq> None"
    by (simp add: stub_eval)
  have d: "run_internal (stub [] [''BuildCommand'']) BuildCommand (demo_env (Some ())) start =
     (None, \<lparr>events = [RunInternal BuildCommand 7], next_id = 0, ext = [''BuildCommand'']\<rparr>)"
    by (simp add: stub_eval demo_env_def)
  have e: "run_internal (stub [] [''BuildCommand'']) InitCommand (demo_env None) start =
     (None, \<lparr>events = [RunInternal InitCommand 7], next_id = 0, ext = [''InitCommand'']\<rparr>)"
    by (simp add: stub_eval demo_env_def)
  from a b c d e
    run_config_required[of "stub [] [''BuildCommand'']" BuildCommand "demo_env None" start]
    run_config_required[of "stub [] [''BuildCommand'']" BuildCommand "demo_env (Some ())" start]
    run_config_required[of "stub [] [''BuildCommand'']" InitCommand "demo_env None" start]
  show ?thesis by (simp del: run.simps)
qed

subsection \<open>\<^verbatim>\<open>SequenceCommand\<close>\<close>

lemma run_members_append:
  "run_members D (xs @ ys) env w =
     (case run_members D xs env w of
        (Some e, w1) \<Rightarrow> (Some e, w1)
      | (None, w1) \<Rightarrow> run_members D ys env w1)"
  by (induction xs arbitrary: w) (auto split: prod.splits option.splits simp del: run.simps)

text \<open>
  C3. Let a sequence command have the members \<open>before @ member # after\<close>, and let the
  members of \<open>before\<close> have run without raising. Each member is constructed with the
  environment of the sequence command and then run. If the \<^verbatim>\<open>run()\<close> of \<open>member\<close> raises
  \<open>e\<close>, \<^verbatim>\<open>run_internal\<close> of the sequence command raises the same \<open>e\<close> in the world in which
  the member raised it, so nothing of \<open>after\<close> has been constructed or run; if it returns,
  the run goes on with \<open>after\<close>. Every command constructed or run in between holds the
  environment of the sequence command.
\<close>

theorem sequence_fail_fast:
  assumes "run_members D before env
             (emit (RunInternal (Sequence name (before @ member # after)) (env_id env)) w) =
           (None, w1)"
  shows "(run D member env (emit (NewCommand member (env_id env)) w1) = (Some e, w2) \<longrightarrow>
            run_internal D (Sequence name (before @ member # after)) env w = (Some e, w2)) \<and>
         (run D member env (emit (NewCommand member (env_id env)) w1) = (None, w2) \<longrightarrow>
            run_internal D (Sequence name (before @ member # after)) env w =
              run_members D after env w2) \<and>
         (\<exists>evs. events (snd (run_internal D (Sequence name (before @ member # after)) env w)) =
                  events w @ evs \<and>
                (\<forall>ev\<in>set evs. event_env ev = Some (env_id env)))"
proof (intro conjI impI)
  assume "run D member env (emit (NewCommand member (env_id env)) w1) = (Some e, w2)"
  with assms show "run_internal D (Sequence name (before @ member # after)) env w = (Some e, w2)"
    by (simp add: run_members_append del: run.simps)
next
  assume "run D member env (emit (NewCommand member (env_id env)) w1) = (None, w2)"
  with assms show "run_internal D (Sequence name (before @ member # after)) env w =
      run_members D after env w2"
    by (simp add: run_members_append del: run.simps)
next
  obtain r w' where r: "run_internal D (Sequence name (before @ member # after)) env w = (r, w')"
    by (cases "run_internal D (Sequence name (before @ member # after)) env w")
  from run_internal_frame[OF r] obtain evs where
    "events w' = events w @ RunInternal (Sequence name (before @ member # after)) (env_id env) # evs"
    "\<forall>ev\<in>set evs. event_env ev = Some (env_id env)"
    by auto
  then have "events w' = events w @ (RunInternal (Sequence name (before @ member # after)) (env_id env) # evs) \<and>
      (\<forall>ev\<in>set (RunInternal (Sequence name (before @ member # after)) (env_id env) # evs). event_env ev = Some (env_id env))"
    by simp
  with r show "\<exists>evs. events (snd (run_internal D (Sequence name (before @ member # after)) env w)) =
                  events w @ evs \<and>
                (\<forall>ev\<in>set evs. event_env ev = Some (env_id env))"
    by (metis snd_conv)
qed

theorem sequence_fail_fast_witness:
  "run_members (stub [''UpdateDepsCommand''] []) [DownloadCommand] (demo_env None)
     (emit (RunInternal SetupCommand 7) start) =
     (None, \<lparr>events = [RunInternal SetupCommand 7, NewCommand DownloadCommand 7,
                       RunInternal DownloadCommand 7],
             next_id = 0, ext = [''DownloadCommand'']\<rparr>) \<and>
   run_internal (stub [''UpdateDepsCommand''] []) SetupCommand (demo_env None) start =
     (Some (GoogkitError ''UpdateDepsCommand''),
      \<lparr>events = [RunInternal SetupCommand 7, NewCommand DownloadCommand 7,
                 RunInternal DownloadCommand 7, NewCommand UpdateDepsCommand 7,
                 RunInternal UpdateDepsCommand 7],
       next_id = 0, ext = [''DownloadCommand'', ''UpdateDepsCommand'']\<rparr>)"
proof -
  let ?D = "stub [''UpdateDepsCommand''] [] :: (unit, string list) collaborators"
  let ?w1 = "\<lparr>events = [RunInternal SetupCommand 7, NewCommand DownloadCommand 7,
                       RunInternal DownloadCommand 7],
             next_id = 0, ext = [''DownloadCommand'']\<rparr>"
  let ?w2 = "\<lparr>events = [RunInternal SetupCommand 7, NewCommand DownloadCommand 7,
                 RunInternal DownloadCommand 7, NewCommand UpdateDepsCommand 7,
                 RunInternal UpdateDepsCommand 7],
       next_id = 0, ext = [''DownloadCommand'', ''UpdateDepsCommand'']\<rparr>"
  have env: "env_id (demo_env None) = 7" by (simp add: demo_env_def)
  have seq: "SetupCommand =
      Sequence ''SetupCommand'' ([DownloadCommand] @ UpdateDepsCommand # [ApplyConfigCommand])"
    by (simp add: SetupCommand_def)
  have before: "run_members ?D [DownloadCommand] (demo_env None)
      (emit (RunInternal (Sequence ''SetupCommand''
         ([DownloadCommand] @ UpdateDepsCommand # [ApplyConfigCommand])) (env_id (demo_env None))) start) =
      (None, ?w1)"
    by (simp add: stub_eval demo_env_def)
  have fails: "run ?D UpdateDepsCommand (demo_env None)
      (emit (NewCommand UpdateDepsCommand (env_id (demo_env None))) ?w1) =
      (Some (GoogkitError ''UpdateDepsCommand''), ?w2)"
    by (simp add: stub_eval demo_env_def)
  from sequence_fail_fast[OF before, of "GoogkitError ''UpdateDepsCommand''" ?w2] fails
  have "run_internal ?D (Sequence ''SetupCommand''
         ([DownloadCommand] @ UpdateDepsCommand # [ApplyConfigCommand])) (demo_env None) start =
      (Some (GoogkitError ''UpdateDepsCommand''), ?w2)"
    by blast
  with before show ?thesis
    unfolding seq[symmetric] env by simp
qed

subsection \<open>The loop of the dispatcher\<close>

lemma run_classes_append:
  "run_classes D cwd parser tree (xs @ ys) config w =
     (case run_classes D cwd parser tree xs config w of
        (Some e, config1, w1) \<Rightarrow> (Some e, config1, w1)
      | (None, config1, w1) \<Rightarrow> run_classes D cwd parser tree ys config1 w1)"
  by (induction xs arbitrary: config w)
     (auto split: prod.splits option.splits sum.splits simp del: run.simps)

lemma command_classes_Nil: "command_classes tree [] = Inr None"
  by (simp add: command_classes_resolve)

text \<open>
  C4. Let the resolved list be \<open>before @ cls # after\<close>, let the classes of \<open>before\<close> have run
  without raising, and let the \<^verbatim>\<open>run()\<close> of the instance of \<open>cls\<close> raise \<open>e\<close>. Then the loop
  is left with \<open>e\<close> in the world in which it was raised: no class of \<open>after\<close> has been
  constructed or run. If \<open>e\<close> is a \<^verbatim>\<open>GoogkitError\<close>, \<^verbatim>\<open>main\<close> logs \<^verbatim>\<open>'[Error] ' + str(e)\<close>
  at error severity and exits with status 1, and nothing else happens; any other exception
  leaves \<^verbatim>\<open>main\<close> uncaught.
\<close>

theorem dispatcher_fail_fast:
  assumes resolved: "command_classes (plugin_load D DEFAULT_TREE) (parser_commands parser) =
                       Inr (Some (before @ cls # after))"
    and earlier: "run_classes D cwd parser (plugin_load D DEFAULT_TREE) before None w =
                    (None, config1, w1)"
    and loaded: "load_if_needed D cwd cls config1 w1 = (Inr config2, w2)"
    and built: "new_Environment cwd parser (plugin_load D DEFAULT_TREE) config2 w2 = (env, w3)"
    and raised: "run D cls env (emit (NewCommand cls (env_id env)) w3) = (Some e, w4)"
  shows "run_classes D cwd parser (plugin_load D DEFAULT_TREE) (before @ cls # after) None w =
           (Some e, config2, w4) \<and>
         (is_GoogkitError e \<longrightarrow>
            main D cwd parser w = (Exit 1, emit (LogError (''[Error] '' @ str_of D e)) w4)) \<and>
         (\<not> is_GoogkitError e \<longrightarrow> main D cwd parser w = (Uncaught e, w4))"
proof -
  have loop: "run_classes D cwd parser (plugin_load D DEFAULT_TREE) (before @ cls # after) None w =
      (Some e, config2, w4)"
    using earlier loaded built raised by (simp add: run_classes_append del: run.simps)
  from resolved have "parser_commands parser \<noteq> []"
    by (auto simp: command_classes_Nil)
  with resolved loop show ?thesis
    by (simp add: main_def Let_def)
qed

theorem dispatcher_fail_fast_witness:
  "main (stub [''UpdateDepsCommand''] []) ''/proj'' (command_line [''setup'']) start =
     (Exit 1,
      \<lparr>events = [NewEnvironment 0, NewCommand SetupCommand 0, RunInternal SetupCommand 0,
                 NewCommand DownloadCommand 0, RunInternal DownloadCommand 0,
                 NewCommand UpdateDepsCommand 0, RunInternal UpdateDepsCommand 0,
                 LogError ''[Error] UpdateDepsCommand''],
       next_id = 1, ext = [''DownloadCommand'', ''UpdateDepsCommand'']\<rparr>)"
proof -
  let ?D = "stub [''UpdateDepsCommand''] [] :: (unit, string list) collaborators"
  let ?parser = "command_line [''setup'']"
  let ?env = "\<lparr>env_id = 0, env_cwd = ''/proj'', env_argument = ?parser,
      env_tree = DEFAULT_TREE, env_config = None :: unit option\<rparr>"
  let ?w3 = "\<lparr>events = [NewEnvironment 0], next_id = 1, ext = [] :: string list\<rparr>"
  let ?w4 = "\<lparr>events = [NewEnvironment 0, NewCommand SetupCommand 0, RunInternal SetupCommand 0,
                 NewCommand DownloadCommand 0, RunInternal DownloadCommand 0,
                 NewCommand UpdateDepsCommand 0, RunInternal UpdateDepsCommand 0],
       next_id = 1, ext = [''DownloadCommand'', ''UpdateDepsCommand'']\<rparr>"
  have tree: "plugin_load ?D DEFAULT_TREE = DEFAULT_TREE"
    by (simp add: stub_def)
  have resolved: "command_classes (plugin_load ?D DEFAULT_TREE) (parser_commands ?parser) =
      Inr (Some ([] @ SetupCommand # [UpdateDepsCommand]))"
    unfolding tree by (simp add: command_classes_resolve command_line_def DEFAULT_TREE_def)
  have earlier: "run_classes ?D ''/proj'' ?parser (plugin_load ?D DEFAULT_TREE) [] None start =
      (None, None, start)"
    by simp
  have loaded: "load_if_needed ?D ''/proj'' SetupCommand None start = (Inr None, start)"
    by (simp add: load_if_needed_def stub_def SetupCommand_def)
  have built: "new_Environment ''/proj'' ?parser (plugin_load ?D DEFAULT_TREE) None start =
      (?env, ?w3)"
    unfolding tree by (simp add: new_Environment_def start_def emit_def)
  have raised: "run ?D SetupCommand ?env (emit (NewCommand SetupCommand (env_id ?env)) ?w3) =
      (Some (GoogkitError ''UpdateDepsCommand''), ?w4)"
    by (simp add: stub_def emit_def SetupCommand_def DownloadCommand_def UpdateDepsCommand_def
        ApplyConfigCommand_def)
  have err: "is_GoogkitError (GoogkitError ''UpdateDepsCommand'')" by simp
  from dispatcher_fail_fast[OF resolved earlier loaded built raised] err
  have "main ?D ''/proj'' ?parser start =
      (Exit 1, emit (LogError (''[Error] '' @ str_of ?D (GoogkitError ''UpdateDepsCommand''))) ?w4)"
    by blast
  then show ?thesis
    by (simp add: emit_def stub_def)
qed

subsection \<open>Help on a resolution miss\<close>

lemma right_commands_loop_acc:
  "right_commands_loop d acc args = acc @ right_commands_loop d [] args"
proof (induction args arbitrary: d acc)
  case Nil
  then show ?case by simp
next
  case (Cons arg args)
  note ih1 = Cons.IH[of _ "acc @ [arg]"] and ih2 = Cons.IH[of _ "[arg]"]
  show ?case by (simp add: ih1 ih2 split: option.splits node.splits)
qed

lemma right_commands_Nil [simp]: "right_commands d [] = []"
  by (simp add: right_commands_def)

lemma right_commands_Cons:
  "right_commands d (arg # args) =
     (case map_of d arg of
        None \<Rightarrow> []
      | Some (Leaf l) \<Rightarrow> [arg]
      | Some (Branch next_dict) \<Rightarrow> arg # right_commands next_dict args)"
  by (simp add: right_commands_def right_commands_loop_acc[of _ "[arg]" args]
      split: option.splits node.splits)

lemma right_commands_prefix: "\<exists>rest. args = right_commands d args @ rest"
  by (induction args arbitrary: d) (auto simp: right_commands_Cons split: option.splits node.splits)

lemma right_commands_resolved: "\<exists>n. node_at (Branch d) (right_commands d args) = Some n"
  by (induction args arbitrary: d) (auto simp: right_commands_Cons split: option.splits node.splits)

lemma right_commands_longest:
  "args = right_commands d args @ rest \<Longrightarrow> rest \<noteq> [] \<Longrightarrow>
   node_at (Branch d) (right_commands d args @ [hd rest]) = None"
proof (induction args arbitrary: d)
  case Nil
  then show ?case by simp
next
  case (Cons arg args)
  show ?case
  proof (cases "map_of d arg")
    case None
    with Cons.prems show ?thesis by (auto simp: right_commands_Cons)
  next
    case (Some n)
    show ?thesis
    proof (cases n)
      case (Leaf l)
      with Some Cons.prems show ?thesis by (cases rest) (auto simp: right_commands_Cons)
    next
      case (Branch d')
      with Some Cons.prems have "args = right_commands d' args @ rest"
        by (simp add: right_commands_Cons)
      from Cons.IH[OF this Cons.prems(2)] Some Branch show ?thesis
        by (simp add: right_commands_Cons)
    qed
  qed
qed

lemma available_commands_right:
  "node_at (Branch d) (right_commands d args) = Some n \<Longrightarrow>
   (\<forall>d'. n = Branch d' \<longrightarrow> [] \<notin> set (map fst d')) \<Longrightarrow>
   available_commands_loop (Branch d) (right_commands d args) = Inr (visible_children n)"
proof (induction args arbitrary: d)
  case Nil
  then show ?case by (auto simp: non_internal_filter)
next
  case (Cons arg args)
  show ?case
  proof (cases "map_of d arg")
    case None
    with Cons.prems show ?thesis by (auto simp: right_commands_Cons non_internal_filter)
  next
    case (Some m)
    show ?thesis
    proof (cases m)
      case (Leaf l)
      with Some Cons.prems show ?thesis by (auto simp: right_commands_Cons)
    next
      case (Branch d')
      with Some Cons.prems Cons.IH[of d'] show ?thesis
        by (simp add: right_commands_Cons)
    qed
  qed
qed

lemma print_help_result:
  assumes "keys_nonempty_at tree (right_commands tree cmds)"
    and "node_at (Branch tree) (right_commands tree cmds) = Some n"
  shows "print_help tree cmds w =
     (None, print_names (visible_children n)
        (emit (Print ''Available commands:'')
           (emit (Print []) (emit (Print (usage_line (right_commands tree cmds))) w))))"
proof -
  from assms have "\<forall>d'. n = Branch d' \<longrightarrow> [] \<notin> set (map fst d')"
    by (auto simp: keys_nonempty_at_def)
  from available_commands_right[OF assms(2) this]
  have "available_commands tree (right_commands tree cmds) = Inr (visible_children n)"
    by (simp add: available_commands_def)
  then show ?thesis
    by (simp add: print_help_def Let_def usage_line_def)
qed

text \<open>
  C8. When \<^verbatim>\<open>command_classes\<close> returns \<^verbatim>\<open>None\<close> for the tokens (and the run is not the
  \<^verbatim>\<open>--version\<close> short cut, which comes before the resolution; and the branch the help is
  rooted at has no empty key, on which \<^verbatim>\<open>name[0]\<close> would raise), \<^verbatim>\<open>main\<close> prints the usage
  line of the prefix \<open>right\<close> that \<^verbatim>\<open>right_commands\<close> resolves, an empty line, the heading and
  the visible names below \<open>right\<close>, each indented, and exits with status 0; nothing is
  logged. \<open>right\<close> is a prefix of the tokens, it leads to a node of the tree, and the token
  after it, if there is one, does not.
\<close>

theorem resolution_miss_prints_help:
  assumes miss: "command_classes (plugin_load D DEFAULT_TREE) (parser_commands parser) = Inr None"
    and no_version: "\<not> (parser_commands parser = [] \<and> parser_version parser)"
    and keys: "keys_nonempty_at (plugin_load D DEFAULT_TREE)
                 (right_commands (plugin_load D DEFAULT_TREE) (parser_commands parser))"
  shows "\<exists>right rest n.
           right = right_commands (plugin_load D DEFAULT_TREE) (parser_commands parser) \<and>
           parser_commands parser = right @ rest \<and>
           node_at (Branch (plugin_load D DEFAULT_TREE)) right = Some n \<and>
           (rest \<noteq> [] \<longrightarrow>
              node_at (Branch (plugin_load D DEFAULT_TREE)) (right @ [hd rest]) = None) \<and>
           main D cwd parser w =
             (Exit 0,
              print_names (visible_children n)
                (emit (Print ''Available commands:'')
                   (emit (Print []) (emit (Print (usage_line right)) w))))"
proof -
  let ?tree = "plugin_load D DEFAULT_TREE"
  let ?right = "right_commands ?tree (parser_commands parser)"
  from right_commands_prefix obtain rest where rest: "parser_commands parser = ?right @ rest"
    by blast
  from right_commands_resolved obtain n where n: "node_at (Branch ?tree) ?right = Some n"
    by blast
  have longest: "rest \<noteq> [] \<longrightarrow> node_at (Branch ?tree) (?right @ [hd rest]) = None"
    using right_commands_longest[OF rest] by blast
  have "main D cwd parser w =
      (Exit 0,
       print_names (visible_children n)
         (emit (Print ''Available commands:'')
            (emit (Print []) (emit (Print (usage_line ?right)) w))))"
    using miss no_version print_help_result[OF keys n, of w]
    by (auto simp: main_def Let_def)
  with rest n longest show ?thesis by blast
qed

theorem resolution_miss_prints_help_witness:
  "command_classes DEFAULT_TREE [''bogus''] = Inr None \<and>
   right_commands DEFAULT_TREE [''bogus''] = [] \<and>
   main (stub [] []) ''/proj'' (command_line [''bogus'']) start =
     (Exit 0,
      \<lparr>events = [Print ''Usage: googkit <command>'', Print [],
                 Print ''Available commands:'', Print ''    build'', Print ''    config'',
                 Print ''    deps'', Print ''    init'', Print ''    ready'',
                 Print ''    setup''],
       next_id = 0, ext = []\<rparr>)"
proof -
  let ?D = "stub [] [] :: (unit, string list) collaborators"
  let ?parser = "command_line [''bogus'']"
  have tree: "plugin_load ?D DEFAULT_TREE = DEFAULT_TREE"
    by (simp add: stub_def)
  have cmds: "parser_commands ?parser = [''bogus'']"
    by (simp add: command_line_def)
  have right: "right_commands DEFAULT_TREE [''bogus''] = []"
    by (simp add: right_commands_def DEFAULT_TREE_def)
  have miss: "command_classes (plugin_load ?D DEFAULT_TREE) (parser_commands ?parser) = Inr None"
    unfolding tree cmds by (simp add: command_classes_resolve DEFAULT_TREE_def)
  have no_version: "\<not> (parser_commands ?parser = [] \<and> parser_version ?parser)"
    by (simp add: command_line_def)
  have keys: "keys_nonempty_at (plugin_load ?D DEFAULT_TREE)
      (right_commands (plugin_load ?D DEFAULT_TREE) (parser_commands ?parser))"
    unfolding tree cmds right by (simp add: keys_nonempty_at_def DEFAULT_TREE_def)
  from resolution_miss_prints_help[OF miss no_version keys, of "''/proj''" start]
  obtain n where
    n: "node_at (Branch DEFAULT_TREE) [] = Some n" and
    m: "main ?D ''/proj'' ?parser start =
         (Exit 0,
          print_names (visible_children n)
            (emit (Print ''Available commands:'')
               (emit (Print []) (emit (Print (usage_line [])) start))))"
    unfolding tree cmds right by blast
  from n have "n = Branch DEFAULT_TREE"
    by simp
  with m have "main ?D ''/proj'' ?parser start =
     (Exit 0,
      \<lparr>events = [Print ''Usage: googkit <command>'', Print [],
                 Print ''Available commands:'', Print ''    build'', Print ''    config'',
                 Print ''    deps'', Print ''    init'', Print ''    ready'',
                 Print ''    setup''],
       next_id = 0, ext = []\<rparr>)"
    by (simp add: usage_line_def emit_def start_def DEFAULT_TREE_def)
  with miss right show ?thesis
    unfolding tree cmds by simp
qed

subsection \<open>Configuration and environments of a run\<close>

lemma created_envs_append: "created_envs (xs @ ys) = created_envs xs @ created_envs ys"
  by (induction xs rule: created_envs.induct) simp_all

lemma config_loads_append: "config_loads (xs @ ys) = config_loads xs + config_loads ys"
  by (induction xs rule: config_loads.induct) simp_all

lemma command_events:
  "\<forall>ev\<in>set evs. event_env ev = Some i \<Longrightarrow>
   created_envs evs = [] \<and> config_loads evs = 0 \<and>
   well_scoped (Some i) (evs @ rest) = well_scoped (Some i) rest"
proof (induction evs)
  case Nil
  then show ?case by simp
next
  case (Cons ev evs)
  then show ?case by (cases ev) auto
qed

lemma load_if_needed_cases:
  assumes "load_if_needed D cwd cls config w = (res, w1)"
  shows "next_id w1 = next_id w \<and>
         (\<exists>pre. events w1 = events w @ pre \<and> created_envs pre = [] \<and> config_loads pre \<le> 1 \<and>
            (\<forall>cur rest. well_scoped cur (pre @ rest) = well_scoped cur rest) \<and>
            (config \<noteq> None \<or> \<not> needs_config D cls \<longrightarrow> pre = [] \<and> res = Inr config) \<and>
            (config = None \<and> needs_config D cls \<longrightarrow> res \<noteq> Inr None))"
proof (cases "config = None \<and> needs_config D cls")
  case False
  with assms show ?thesis by (auto simp: load_if_needed_def)
next
  case True
  show ?thesis
  proof (cases "project_root D cwd (ext w)")
    case (Inl e)
    with True assms show ?thesis by (auto simp: load_if_needed_def)
  next
    case (Inr root)
    show ?thesis
    proof (cases "chdir D root (ext w)")
      case (Inl e)
      with True Inr assms show ?thesis by (auto simp: load_if_needed_def)
    next
      case moved: (Inr x)
      with True Inr assms have
        "events w1 = events w @ [Chdir root, FindConfig cwd]" "next_id w1 = next_id w"
        "res \<noteq> Inr None"
        by (auto simp: load_if_needed_def Let_def split: sum.splits)
      with True show ?thesis by auto
    qed
  qed
qed

lemma run_classes_trace:
  "run_classes D cwd parser tree classes config w = (r, config', w') \<Longrightarrow>
   \<exists>evs. events w' = events w @ evs \<and>
     config_loads evs \<le> 1 \<and>
     (config \<noteq> None \<longrightarrow> config_loads evs = 0) \<and>
     ((\<forall>cls\<in>set classes. \<not> needs_config D cls) \<longrightarrow> config_loads evs = 0 \<and> config' = config) \<and>
     (\<forall>cur. well_scoped cur evs) \<and>
     created_envs evs = [next_id w ..< next_id w'] \<and>
     next_id w \<le> next_id w' \<and>
     next_id w' \<le> next_id w + length classes \<and>
     (r = None \<longrightarrow> next_id w' = next_id w + length classes)"
proof (induction classes arbitrary: config w)
  case Nil
  then show ?case by auto
next
  case (Cons cls classes)
  obtain res w1 where l: "load_if_needed D cwd cls config w = (res, w1)"
    by (cases "load_if_needed D cwd cls config w")
  from load_if_needed_cases[OF l] obtain pre where
    n1: "next_id w1 = next_id w" and
    e1: "events w1 = events w @ pre" and
    c1: "created_envs pre = []" and
    k1: "config_loads pre \<le> 1" and
    s1: "\<forall>cur rest. well_scoped cur (pre @ rest) = well_scoped cur rest" and
    u1: "config \<noteq> None \<or> \<not> needs_config D cls \<longrightarrow> pre = [] \<and> res = Inr config" and
    v1: "config = None \<and> needs_config D cls \<longrightarrow> res \<noteq> Inr None"
    by blast
  show ?case
  proof (cases res)
    case (Inl e)
    with l Cons.prems have "w' = w1" "r = Some e" "config' = config" by simp_all
    with n1 e1 c1 k1 s1 u1 Inl show ?thesis
      by (intro exI[of _ pre]) (auto simp: s1[rule_format, of _ "[]", simplified])
  next
    case (Inr config1)
    let ?i = "next_id w1"
    let ?env = "\<lparr>env_id = ?i, env_cwd = cwd, env_argument = parser, env_tree = tree,
       env_config = config1\<rparr>"
    let ?w2 = "emit (NewEnvironment ?i) (w1\<lparr>next_id := Suc ?i\<rparr>)"
    have ne: "new_Environment cwd parser tree config1 w1 = (?env, ?w2)"
      by (simp add: new_Environment_def)
    obtain r3 w3 where r3: "run D cls ?env (emit (NewCommand cls (env_id ?env)) ?w2) = (r3, w3)"
      by (cases "run D cls ?env (emit (NewCommand cls (env_id ?env)) ?w2)")
    from run_frame[OF r3] obtain evs3 where
      n3: "next_id w3 = Suc ?i" and
      e3: "events w3 = events w1 @ NewEnvironment ?i # NewCommand cls ?i # evs3" and
      a3: "\<forall>ev\<in>set evs3. event_env ev = Some ?i"
      by auto
    note ce = command_events[OF a3]
    let ?step = "pre @ NewEnvironment ?i # NewCommand cls ?i # evs3"
    have step_envs: "created_envs ?step = [?i]"
      using c1 ce by (simp add: created_envs_append)
    have step_loads: "config_loads ?step = config_loads pre"
      using ce by (simp add: config_loads_append)
    have step_scoped: "\<And>cur rest. well_scoped cur (?step @ rest) = well_scoped (Some ?i) rest"
      using s1 ce by simp
    have loaded: "config1 \<noteq> None \<or> config_loads pre = 0"
      using u1 v1 Inr by (cases "config = None \<and> needs_config D cls") auto
    have kept: "config \<noteq> None \<or> \<not> needs_config D cls \<Longrightarrow> config1 = config \<and> pre = []"
      using u1 Inr by auto
    show ?thesis
    proof (cases r3)
      case (Some e)
      with l Inr ne r3 Cons.prems have w': "w' = w3" "config' = config1" "r = Some e"
        by (simp_all del: run.simps)
      have ev: "events w' = events w @ ?step"
        using w' e1 e3 by simp
      have envs: "created_envs ?step = [next_id w ..< next_id w']"
        using step_envs w' n1 n3 by simp
      have scoped: "\<forall>cur. well_scoped cur ?step"
        using step_scoped[of _ "[]"] by simp
      have le1: "config_loads ?step \<le> 1"
        using step_loads k1 by simp
      have zero1: "config \<noteq> None \<longrightarrow> config_loads ?step = 0"
        using step_loads kept by auto
      have zero2: "(\<forall>c\<in>set (cls # classes). \<not> needs_config D c) \<longrightarrow>
          config_loads ?step = 0 \<and> config' = config"
        using step_loads kept w' by auto
      have ids: "next_id w \<le> next_id w'" "next_id w' \<le> next_id w + length (cls # classes)"
        "r = None \<longrightarrow> next_id w' = next_id w + length (cls # classes)"
        using w' n1 n3 by simp_all
      from ev envs scoped le1 zero1 zero2 ids show ?thesis
        by blast
    next
      case None
      with l Inr ne r3 Cons.prems have
        rest: "run_classes D cwd parser tree classes config1 w3 = (r, config', w')"
        by (simp del: run.simps)
      from Cons.IH[OF rest] obtain evs where
        e: "events w' = events w3 @ evs" and
        k: "config_loads evs \<le> 1" and
        k0: "config1 \<noteq> None \<longrightarrow> config_loads evs = 0" and
        kn: "(\<forall>cls\<in>set classes. \<not> needs_config D cls) \<longrightarrow> config_loads evs = 0 \<and> config' = config1" and
        s: "\<forall>cur. well_scoped cur evs" and
        c: "created_envs evs = [next_id w3 ..< next_id w']" and
        lo: "next_id w3 \<le> next_id w'" and
        hi: "next_id w' \<le> next_id w3 + length classes" and
        eq: "r = None \<longrightarrow> next_id w' = next_id w3 + length classes"
        by blast
      have ev: "events w' = events w @ (?step @ evs)"
        using e e1 e3 by simp
      have envs: "created_envs (?step @ evs) = [next_id w ..< next_id w']"
      proof -
        have "created_envs (?step @ evs) = created_envs ?step @ created_envs evs"
          by (rule created_envs_append)
        also have "\<dots> = [?i] @ [next_id w3 ..< next_id w']"
          by (simp only: step_envs c)
        also have "\<dots> = [next_id w ..< next_id w']"
          using n1 n3 lo by (simp add: upt_conv_Cons)
        finally show ?thesis .
      qed
      have loads: "config_loads (?step @ evs) = config_loads pre + config_loads evs"
      proof -
        have "config_loads (?step @ evs) = config_loads ?step + config_loads evs"
          by (rule config_loads_append)
        then show ?thesis by (simp only: step_loads)
      qed
      have scoped: "\<forall>cur. well_scoped cur (?step @ evs)"
        by (simp only: step_scoped s simp_thms)
      have le1: "config_loads (?step @ evs) \<le> 1"
        using loads loaded k k0 k1 by auto
      have zero1: "config \<noteq> None \<longrightarrow> config_loads (?step @ evs) = 0"
        using loads kept k0 by auto
      have zero2: "(\<forall>c\<in>set (cls # classes). \<not> needs_config D c) \<longrightarrow>
          config_loads (?step @ evs) = 0 \<and> config' = config"
        using loads kept kn by auto
      have ids: "next_id w \<le> next_id w'" "next_id w' \<le> next_id w + length (cls # classes)"
        "r = None \<longrightarrow> next_id w' = next_id w + length (cls # classes)"
        using n1 n3 lo hi eq by simp_all
      from ev envs scoped le1 zero1 zero2 ids show ?thesis
        by blast
    qed
  qed
qed

lemma trace_then_log:
  "config_loads (evs @ [LogError msg]) = config_loads evs"
  "created_envs (evs @ [LogError msg]) = created_envs evs"
  by (simp_all add: config_loads_append created_envs_append)

lemma well_scoped_then_log:
  "well_scoped cur evs \<Longrightarrow> well_scoped cur (evs @ [LogError msg])"
proof (induction cur evs rule: well_scoped.induct)
  case (2 cur i evs)
  then show ?case by (cases evs) (auto split: event.splits)
qed simp_all




section \<open>Properties of \<^verbatim>\<open>InitCommand\<close>\<close>

text \<open>
  C10. When the destination directory and the template directory share an entry name,
  \<^verbatim>\<open>copy_template\<close> raises a \<^verbatim>\<open>GoogkitError\<close> whose message is \<^verbatim>\<open>'Conflicted files: '\<close>
  followed by the shared names, separated by \<^verbatim>\<open>', '\<close>, and the file system is the one it
  was called in: \<^verbatim>\<open>copy_tree\<close> has not been called. (Iterating the set of shared names
  yields these names.)
\<close>

theorem copy_template_conflict:
  assumes dst: "listdir F dst_dir fs = Inr dst_entries"
    and tpl: "listdir F (template F) fs = Inr template_entries"
    and conflict: "set dst_entries \<inter> set template_entries \<noteq> {}"
    and iter: "set (set_iter F (set dst_entries \<inter> set template_entries)) =
               set dst_entries \<inter> set template_entries"
  shows "\<exists>names. copy_template F dst_dir fs =
           (Some (GoogkitError (''Conflicted files: '' @ join '', '' names)), fs) \<and>
         set names = set dst_entries \<inter> set template_entries \<and>
         is_GoogkitError (GoogkitError (''Conflicted files: '' @ join '', '' names))"
  using assms
  by (intro exI[of _ "set_iter F (set dst_entries \<inter> set template_entries)"])
     (simp add: copy_template_def Let_def)

theorem copy_template_conflict_witness:
  "set [''index.html'', ''README'', ''closure''] \<inter>
     set [''closure'', ''googkit.cfg'', ''index.html''] \<noteq> {} \<and>
   copy_template stub_fs ''/proj'' (project_fs [''index.html'', ''README'', ''closure'']) =
     (Some (GoogkitError ''Conflicted files: closure, index.html''),
      project_fs [''index.html'', ''README'', ''closure'']) \<and>
   copy_template stub_fs ''/proj'' (project_fs [''README'']) =
     (None, [(''/template'', [''closure'', ''googkit.cfg'', ''index.html'']),
             (''/proj'', [''README'', ''closure'', ''googkit.cfg'', ''index.html''])])"
proof -
  let ?fs = "project_fs [''index.html'', ''README'', ''closure'']"
  let ?dst = "[''index.html'', ''README'', ''closure'']"
  let ?tpl = "[''closure'', ''googkit.cfg'', ''index.html'']"
  have dst: "listdir stub_fs ''/proj'' ?fs = Inr ?dst"
    by (simp add: stub_fs_def project_fs_def)
  have tpl: "listdir stub_fs (template stub_fs) ?fs = Inr ?tpl"
    by (simp add: stub_fs_def project_fs_def)
  have inter: "set ?dst \<inter> set ?tpl = set [''closure'', ''index.html'']"
    by auto
  have conflict: "set ?dst \<inter> set ?tpl \<noteq> {}"
    unfolding inter by simp
  have sorted: "sorted_list_of_set (set [''closure'', ''index.html'']) =
      [''closure'', ''index.html'']"
    unfolding sorted_list_of_set_sort_remdups by simp
  have iter: "set (set_iter stub_fs (set ?dst \<inter> set ?tpl)) = set ?dst \<inter> set ?tpl"
    unfolding inter by (simp add: stub_fs_def del: set_simps)
  from copy_template_conflict[OF dst tpl conflict iter]
  obtain names where
    r: "copy_template stub_fs ''/proj'' ?fs =
          (Some (GoogkitError (''Conflicted files: '' @ join '', '' names)), ?fs)"
    by blast
  have "copy_template stub_fs ''/proj'' ?fs =
      (Some (GoogkitError (''Conflicted files: '' @ join '', '' (set_iter stub_fs (set ?dst \<inter> set ?tpl)))), ?fs)"
    using dst tpl conflict by (simp add: copy_template_def Let_def)
  with r have "join '', '' names = join '', '' (set_iter stub_fs (set ?dst \<inter> set ?tpl))"
    by simp
  also have "\<dots> = ''closure, index.html''"
    unfolding inter stub_fs_def init_collaborators.simps sorted by simp
  finally have msg: "join '', '' names = ''closure, index.html''" .
  have ok: "copy_template stub_fs ''/proj'' (project_fs [''README'']) =
     (None, [(''/template'', [''closure'', ''googkit.cfg'', ''index.html'']),
             (''/proj'', [''README'', ''closure'', ''googkit.cfg'', ''index.html''])])"
    by (simp add: copy_template_def stub_fs_def project_fs_def)
  from r msg conflict ok show ?thesis by simp
qed

end
